theory Spec2Isabelle
  imports Main "HOL-Library.Monad_Syntax" "HOL-Library.Multiset"
begin

section \<open>Tower of Hanoi visualiser: the script of App.svelte\<close>

text \<open>
  The component keeps its session in module-level variables and changes them from event
  handlers and from one interval callback. The model below passes that session around as
  a record. JavaScript numbers that the component only ever uses as whole numbers are
  \<open>int\<close> (the disk count, which is decremented below zero by the planner on a bad
  input) or \<open>nat\<close> (array indices, the move index, timer handles, timestamps).
\<close>

subsection \<open>Data\<close>

text \<open>\<open>type DiskType = { id: number; size: number }\<close>\<close>

record DiskType =
  disk_id :: int
  disk_size :: int

text \<open>\<open>type Move = { from: number; to: number }\<close>, both rod indices.\<close>

record Move =
  from_rod :: nat
  to_rod :: nat

text \<open>
  The module-level variables, in the order of their declaration. The last field is not a
  variable of the script: it is the browser's table of active interval handles, which
  \<open>window.setInterval\<close> extends and \<open>clearInterval\<close> shrinks. The callback of a
  handle runs only while the handle is in that table.
\<close>

record State =
  disks :: int
  rods :: "DiskType list list"
  moves :: "Move list"
  currentMoveIndex :: nat
  isPlaying :: bool
  speed :: int
  totalMoves :: nat
  intervalId :: "nat option"
  startTime :: "nat option"
  timers :: "nat list"

text \<open>
  A \<open>TypeError\<close> is what JavaScript throws when a property is read from, a method is
  called on, or the spread operator is applied to \<open>undefined\<close>, which is what an
  out-of-range array read yields. An operation that throws has the value \<open>Inl TypeError\<close>;
  the variables it had already assigned are not kept.
\<close>

datatype error = TypeError

text \<open>
  \<open>if (x)\<close> on a \<open>number | null\<close>: \<open>null\<close> and \<open>0\<close> are falsy.
\<close>

fun truthy :: "nat option \<Rightarrow> bool" where
  "truthy None = False"
| "truthy (Some k) = (k \<noteq> 0)"

text \<open>\<open>clearInterval(h)\<close>: the handle leaves the browser's table.\<close>

definition clearInterval :: "nat \<Rightarrow> State \<Rightarrow> State" where
  "clearInterval h s = s\<lparr>timers := removeAll h (timers s)\<rparr>"

subsection \<open>The move planner\<close>

text \<open>
  \<open>calculateMoves\<close> tests \<open>n === 1\<close> and otherwise calls itself twice on \<open>n - 1\<close>.
  Nothing bounds \<open>n\<close> from below, so the recursion is not well-founded on the integers;
  the result is an option, and \<open>None\<close> stands for a call that never returns (in an
  engine, one that ends in a stack overflow). The limits an engine puts on the size of an
  array or on the number of arguments of \<open>push(...)\<close> are not modelled.
\<close>

partial_function (option) calculateMoves :: "int \<Rightarrow> nat \<Rightarrow> nat \<Rightarrow> nat \<Rightarrow> Move list option" where
  "calculateMoves n source target auxiliary =
     (if n = 1 then Some [\<lparr>from_rod = source, to_rod = target\<rparr>]
      else do {
        first \<leftarrow> calculateMoves (n - 1) source auxiliary target;
        second \<leftarrow> calculateMoves (n - 1) auxiliary target source;
        Some (first @ [\<lparr>from_rod = source, to_rod = target\<rparr>] @ second)
      })"

subsection \<open>The playback controller\<close>

text \<open>
  \<open>Array.from({length: numDisks}, (_, i) => ({id: i, size: numDisks - i}))\<close>; a length
  below zero gives the empty array.
\<close>

definition initialStack :: "int \<Rightarrow> DiskType list" where
  "initialStack numDisks =
     map (\<lambda>i. \<lparr>disk_id = int i, disk_size = numDisks - int i\<rparr>) [0..<nat numDisks]"

text \<open>
  \<open>initializeGame\<close> returns when its call of the planner does. The assignments to
  \<open>disks\<close> and \<open>rods\<close> that precede a call that does not return are not kept in the
  model: \<open>None\<close> carries no state.
\<close>

definition initializeGame :: "int \<Rightarrow> State \<Rightarrow> State option" where
  "initializeGame numDisks s =
     (case calculateMoves numDisks 0 2 1 of
        None \<Rightarrow> None
      | Some ms \<Rightarrow>
          Some (s\<lparr>disks := numDisks,
                  rods := [initialStack numDisks, [], []],
                  moves := ms,
                  totalMoves := length ms,
                  currentMoveIndex := 0\<rparr>))"

text \<open>
  \<open>executeMove\<close>. \<open>rods[move.from].pop()\<close> shortens the source rod in place and
  yields \<open>undefined\<close> on an empty rod; \<open>rods[move.to] = [...rods[move.to], disk]\<close> is
  evaluated after the pop and only \<open>if (disk)\<close>. A rod index outside the array reads
  \<open>undefined\<close>, and the method call or the spread on it throws.
\<close>

definition executeMove :: "State \<Rightarrow> error + State" where
  "executeMove s =
     (if currentMoveIndex s \<ge> length (moves s) then
        (let s1 = s\<lparr>isPlaying := False\<rparr> in
         if truthy (intervalId s1)
         then Inr ((clearInterval (the (intervalId s1)) s1)\<lparr>intervalId := None\<rparr>)
         else Inr s1)
      else
        (let move = moves s ! currentMoveIndex s in
         if from_rod move \<ge> length (rods s) then Inl TypeError
         else
           (let src = rods s ! from_rod move in
            if src = [] then Inr (s\<lparr>currentMoveIndex := currentMoveIndex s + 1\<rparr>)
            else
              (let disk = last src;
                   rods1 = (rods s)[from_rod move := butlast src] in
               if to_rod move \<ge> length rods1 then Inl TypeError
               else Inr (s\<lparr>rods := rods1[to_rod move := (rods1 ! to_rod move) @ [disk]],
                          currentMoveIndex := currentMoveIndex s + 1\<rparr>)))))"

text \<open>
  \<open>startAnimation\<close>; \<open>now\<close> is what \<open>Date.now()\<close> returns and \<open>h\<close> the handle that
  \<open>window.setInterval\<close> returns.
\<close>

definition startAnimation :: "nat \<Rightarrow> nat \<Rightarrow> State \<Rightarrow> State" where
  "startAnimation now h s =
     (if length (moves s) > 0 \<and> currentMoveIndex s < length (moves s) \<and> \<not> isPlaying s then
        (let s1 = s\<lparr>isPlaying := True\<rparr>;
             s2 = (if \<not> truthy (startTime s1) then s1\<lparr>startTime := Some now\<rparr> else s1)
         in s2\<lparr>intervalId := Some h, timers := h # timers s2\<rparr>)
      else s)"

definition stopAnimation :: "State \<Rightarrow> State" where
  "stopAnimation s =
     (let s1 = s\<lparr>isPlaying := False\<rparr> in
      if truthy (intervalId s1)
      then (clearInterval (the (intervalId s1)) s1)\<lparr>intervalId := None\<rparr>
      else s1)"

text \<open>The function handed to \<open>window.setInterval\<close> by \<open>startAnimation\<close>.\<close>

definition intervalCallback :: "State \<Rightarrow> error + State" where
  "intervalCallback s =
     (case executeMove s of
        Inl e \<Rightarrow> Inl e
      | Inr s1 \<Rightarrow>
          if currentMoveIndex s1 \<ge> length (moves s1) then Inr (stopAnimation s1) else Inr s1)"

definition resetGame :: "State \<Rightarrow> State option" where
  "resetGame s = initializeGame (disks s) ((stopAnimation s)\<lparr>startTime := None\<rparr>)"

definition stepForward :: "State \<Rightarrow> error + State" where
  "stepForward s = (if currentMoveIndex s < length (moves s) then executeMove s else Inr s)"

text \<open>
  \<open>stepBackward\<close> decrements the index first, then reads \<open>moves[currentMoveIndex]\<close>,
  pops from \<open>rods[move.to]\<close> and, \<open>if (disk)\<close>, appends to \<open>rods[move.from]\<close>.
\<close>

definition stepBackward :: "State \<Rightarrow> error + State" where
  "stepBackward s =
     (if currentMoveIndex s > 0 then
        (let i = currentMoveIndex s - 1 in
         if i \<ge> length (moves s) then Inl TypeError
         else
           (let move = moves s ! i in
            if to_rod move \<ge> length (rods s) then Inl TypeError
            else
              (let dst = rods s ! to_rod move in
               if dst = [] then Inr (s\<lparr>currentMoveIndex := i\<rparr>)
               else
                 (let disk = last dst;
                      rods1 = (rods s)[to_rod move := butlast dst] in
                  if from_rod move \<ge> length rods1 then Inl TypeError
                  else Inr (s\<lparr>currentMoveIndex := i,
                             rods := rods1[from_rod move := (rods1 ! from_rod move) @ [disk]]\<rparr>)))))
      else Inr s)"

definition updateDisks :: "int \<Rightarrow> State \<Rightarrow> State option" where
  "updateDisks newDisks s = initializeGame newDisks s"

text \<open>The values the variables are declared with.\<close>

definition declaredState :: State where
  "declaredState =
     \<lparr>disks = 3, rods = [[], [], []], moves = [], currentMoveIndex = 0, isPlaying = False,
      speed = 1000, totalMoves = 0, intervalId = None, startTime = None, timers = []\<rparr>"

subsection \<open>User actions\<close>

text \<open>
  The two step buttons. A session is a list of presses, run in order; a press that throws
  ends the run with the error.
\<close>

datatype action = Forward | Backward

fun perform :: "action \<Rightarrow> State \<Rightarrow> error + State" where
  "perform Forward s = stepForward s"
| "perform Backward s = stepBackward s"

fun run :: "action list \<Rightarrow> State \<Rightarrow> error + State" where
  "run [] s = Inr s"
| "run (a # as) s = (case perform a s of Inl e \<Rightarrow> Inl e | Inr s' \<Rightarrow> run as s')"

section \<open>Notions used to state the properties\<close>

text \<open>
  A rod is stored bottom first (the top disk is the last element). It is ordered when
  every disk is smaller than all the disks below it.
\<close>

definition rodOrdered :: "DiskType list \<Rightarrow> bool" where
  "rodOrdered rod = sorted_wrt (\<lambda>lower upper. disk_size upper < disk_size lower) rod"

definition allRodsOrdered :: "DiskType list list \<Rightarrow> bool" where
  "allRodsOrdered R = list_all rodOrdered R"

text \<open>The disks held by the rods, as a multiset.\<close>

definition allDisks :: "State \<Rightarrow> DiskType multiset" where
  "allDisks s = mset (concat (rods s))"

text \<open>
  The states the declared types describe: three rods, rod indices 0, 1 or 2 in every
  move, and a move index within \<open>0..moves.length\<close>.
\<close>

definition validMove :: "Move \<Rightarrow> bool" where
  "validMove m = (from_rod m < 3 \<and> to_rod m < 3)"

definition wellFormed :: "State \<Rightarrow> bool" where
  "wellFormed s = (length (rods s) = 3 \<and> list_all validMove (moves s)
      \<and> currentMoveIndex s \<le> length (moves s))"

section \<open>Proof devices\<close>

text \<open>
  The planner on a natural number of disks, by structural recursion. It is shown below to
  be what \<open>calculateMoves\<close> returns on every \<open>n \<ge> 1\<close>.
\<close>

fun hanoi :: "nat \<Rightarrow> nat \<Rightarrow> nat \<Rightarrow> nat \<Rightarrow> Move list" where
  "hanoi 0 source target auxiliary = []"
| "hanoi (Suc k) source target auxiliary =
     hanoi k source auxiliary target @ [\<lparr>from_rod = source, to_rod = target\<rparr>]
       @ hanoi k auxiliary target source"

text \<open>
  What \<open>executeMove\<close> does to the rods when both rod indices are in range, and the
  same for a list of moves.
\<close>

definition moveDisk :: "Move \<Rightarrow> DiskType list list \<Rightarrow> DiskType list list" where
  "moveDisk m R =
     (let src = R ! from_rod m in
      if src = [] then R
      else (let R1 = R[from_rod m := butlast src]
            in R1[to_rod m := (R1 ! to_rod m) @ [last src]]))"

definition replay :: "Move list \<Rightarrow> DiskType list list \<Rightarrow> DiskType list list" where
  "replay ms R = fold moveDisk ms R"

text \<open>\<open>stepBackward\<close> pops from \<open>move.to\<close> and pushes onto \<open>move.from\<close>.\<close>

definition reverseMove :: "Move \<Rightarrow> Move" where
  "reverseMove m = \<lparr>from_rod = to_rod m, to_rod = from_rod m\<rparr>"

text \<open>
  A list of moves is legal from a configuration when every move finds a disk on its
  source rod and all rods are ordered before the first move, between any two moves and
  after the last one.
\<close>

fun legal :: "Move list \<Rightarrow> DiskType list list \<Rightarrow> bool" where
  "legal [] R = allRodsOrdered R"
| "legal (m # ms) R = (allRodsOrdered R \<and> R ! from_rod m \<noteq> [] \<and> legal ms (moveDisk m R))"

definition below :: "DiskType list \<Rightarrow> DiskType list \<Rightarrow> bool" where
  "below D X = (\<forall>d \<in> set D. \<forall>x \<in> set X. disk_size d < disk_size x)"

definition properMove :: "Move \<Rightarrow> bool" where
  "properMove m = (from_rod m < 3 \<and> to_rod m < 3 \<and> from_rod m \<noteq> to_rod m)"

text \<open>
  The session \<open>b\<close> moved to move index \<open>i\<close>: the first \<open>i\<close> moves replayed on the
  rods of \<open>b\<close>.
\<close>

definition stateAt :: "State \<Rightarrow> nat \<Rightarrow> State" where
  "stateAt b i = b\<lparr>rods := replay (take i (moves b)) (rods b), currentMoveIndex := i\<rparr>"

definition playable :: "State \<Rightarrow> bool" where
  "playable b = (length (rods b) = 3 \<and> legal (moves b) (rods b)
      \<and> list_all properMove (moves b) \<and> currentMoveIndex b = 0)"

section \<open>Concrete sessions\<close>

text \<open>
  A concrete session used to evaluate the operations: the state that \<open>onMount\<close> leaves,
  \<open>initializeGame(3)\<close> run on the declared variables.
\<close>

definition game3 :: State where
  "game3 = declaredState\<lparr>
     rods := [[\<lparr>disk_id = 0, disk_size = 3\<rparr>, \<lparr>disk_id = 1, disk_size = 2\<rparr>,
               \<lparr>disk_id = 2, disk_size = 1\<rparr>], [], []],
     moves := [\<lparr>from_rod = 0, to_rod = 2\<rparr>, \<lparr>from_rod = 0, to_rod = 1\<rparr>,
               \<lparr>from_rod = 2, to_rod = 1\<rparr>, \<lparr>from_rod = 0, to_rod = 2\<rparr>,
               \<lparr>from_rod = 1, to_rod = 0\<rparr>, \<lparr>from_rod = 1, to_rod = 2\<rparr>,
               \<lparr>from_rod = 0, to_rod = 2\<rparr>],
     totalMoves := 7\<rparr>"

text \<open>
  Three more concrete sessions: \<open>game3\<close> after its first move; \<open>game3\<close> with the disks
  put on rod 1 by hand, so that the first move finds its source rod empty; and \<open>game3\<close>
  after \<open>startAnimation\<close> with \<open>Date.now() = 1000\<close> and interval handle 1.
\<close>

definition oneMoved :: State where
  "oneMoved = game3\<lparr>
     rods := [[\<lparr>disk_id = 0, disk_size = 3\<rparr>, \<lparr>disk_id = 1, disk_size = 2\<rparr>], [],
              [\<lparr>disk_id = 2, disk_size = 1\<rparr>]],
     currentMoveIndex := 1\<rparr>"

definition stuck :: State where
  "stuck = game3\<lparr>
     rods := [[], [\<lparr>disk_id = 0, disk_size = 3\<rparr>, \<lparr>disk_id = 1, disk_size = 2\<rparr>,
                   \<lparr>disk_id = 2, disk_size = 1\<rparr>], []]\<rparr>"

definition playing3 :: State where
  "playing3 = game3\<lparr>isPlaying := True, intervalId := Some 1, startTime := Some 1000,
                     timers := [1]\<rparr>"

text \<open>
  The playing session after \<open>updateDisks(5)\<close>; that its moves are what the planner
  returns for five disks is part of \<open>updateDisks_playing3\<close> below.
\<close>

definition updated5 :: State where
  "updated5 = playing3\<lparr>disks := 5, rods := [initialStack 5, [], []],
                        moves := hanoi 5 0 2 1, totalMoves := 31\<rparr>"

section \<open>The planner returns the recursive move list\<close>

lemma calculateMoves_hanoi:
  "calculateMoves (1 + int k) s t a = Some (hanoi (Suc k) s t a)"
proof (induction k arbitrary: s t a)
  case 0
  show ?case by (simp add: calculateMoves.simps)
next
  case (Suc k)
  show ?case
    by (subst calculateMoves.simps) (simp add: Suc)
qed

lemma calculateMoves_pos:
  assumes "1 \<le> n"
  shows "calculateMoves n s t a = Some (hanoi (nat n) s t a)"
proof -
  from assms have "n = 1 + int (nat (n - 1))" by simp
  moreover from assms have "nat n = Suc (nat (n - 1))" by simp
  ultimately show ?thesis using calculateMoves_hanoi[of "nat (n - 1)" s t a] by simp
qed

lemma length_hanoi: "length (hanoi k s t a) = 2 ^ k - 1"
  by (induction k arbitrary: s t a) (simp_all add: algebra_simps)

lemma calculateMoves_Some_pos:
  assumes "calculateMoves n s t a = Some ms"
  shows "1 \<le> n"
proof (rule calculateMoves.raw_induct[where P = "\<lambda>n _ _ _ _. 1 \<le> n", OF _ assms], goal_cases)
  case (1 f n s t a ms)
  from 1(2) show ?case
    by (auto split: if_splits bind_splits dest!: 1(1))
qed

lemma calculateMoves_nonpos: "n < 1 \<Longrightarrow> calculateMoves n s t a = None"
  using calculateMoves_Some_pos[of n s t a] by (cases "calculateMoves n s t a") auto

section \<open>Replaying the plan on the rods\<close>

lemma replay_append: "replay (xs @ ys) R = replay ys (replay xs R)"
  by (simp add: replay_def)

lemma legal_start: "legal ms R \<Longrightarrow> allRodsOrdered R"
  by (cases ms) auto

lemma legal_append: "legal (xs @ ys) R = (legal xs R \<and> legal ys (replay xs R))"
  by (induction xs arbitrary: R) (auto simp: replay_def dest: legal_start)

lemma three_cases:
  assumes "s < 3" "t < 3" "a < 3" "s \<noteq> t" "s \<noteq> a" "t \<noteq> a" "i < (3::nat)"
  shows "i = s \<or> i = t \<or> i = a"
  using assms by arith

lemma allRodsOrdered_three:
  assumes "length R = 3" "s < 3" "t < 3" "a < 3" "s \<noteq> t" "s \<noteq> a" "t \<noteq> a"
  shows "allRodsOrdered R = (rodOrdered (R ! s) \<and> rodOrdered (R ! t) \<and> rodOrdered (R ! a))"
proof -
  have "allRodsOrdered R = (\<forall>i<3. rodOrdered (R ! i))"
    using assms(1) by (simp add: allRodsOrdered_def list_all_length)
  also have "\<dots> = (rodOrdered (R ! s) \<and> rodOrdered (R ! t) \<and> rodOrdered (R ! a))"
    using assms three_cases[of s t a] by blast
  finally show ?thesis .
qed

lemma rodOrdered_append:
  "rodOrdered (xs @ ys) = (rodOrdered xs \<and> rodOrdered ys \<and> below ys xs)"
  by (auto simp: rodOrdered_def below_def sorted_wrt_append)

lemma rodOrdered_single [simp]: "rodOrdered [d]"
  by (simp add: rodOrdered_def)

lemma moveDisk_nonempty:
  assumes "R ! from_rod m = S @ [d]"
  shows "moveDisk m R = (R[from_rod m := S])[to_rod m := (R[from_rod m := S] ! to_rod m) @ [d]]"
  using assms by (simp add: moveDisk_def Let_def)

lemma update3_eq:
  assumes "length R = 3" "length R' = 3" "s < 3" "t < 3" "a < 3" "s \<noteq> t" "s \<noteq> a" "t \<noteq> a"
    "R ! s = R' ! s" "R ! t = R' ! t" "R ! a = R' ! a"
  shows "R = R'"
proof (rule nth_equalityI)
  show "length R = length R'" using assms by simp
next
  fix i assume "i < length R"
  then have "i = s \<or> i = t \<or> i = a" using assms three_cases[of s t a i] by simp
  then show "R ! i = R' ! i" using assms by auto
qed

lemma hanoi_correct:
  assumes "length R = 3" "s < 3" "t < 3" "a < 3" "s \<noteq> t" "s \<noteq> a" "t \<noteq> a"
    and "R ! s = S @ D" "length D = k"
    and "rodOrdered (S @ D)" "rodOrdered (R ! t)" "rodOrdered (R ! a)"
    and "below D (R ! t)" "below D (R ! a)"
  shows "legal (hanoi k s t a) R \<and> replay (hanoi k s t a) R = R[s := S, t := (R ! t) @ D]"
  using assms
proof (induction k arbitrary: s t a R S D)
  case 0
  then have "D = []" by simp
  with 0 show ?case
    by (simp add: replay_def allRodsOrdered_three[of R s t a] list_update_same_conv[THEN iffD2])
next
  case (Suc k)
  then obtain d D' where D: "D = d # D'" and lenD': "length D' = k"
    by (cases D) auto
  let ?m = "\<lparr>from_rod = s, to_rod = t\<rparr>"
  let ?R1 = "R[s := S @ [d], a := (R ! a) @ D']"
  let ?R2 = "?R1[s := S, t := (R ! t) @ [d]]"
  have ord: "rodOrdered S" "rodOrdered D'" "below D' S" "below [d] S" "below D' [d]"
    using Suc.prems(10) unfolding D by (auto simp: rodOrdered_def below_def sorted_wrt_append)
  have bel: "below D' (R ! t)" "below D' (R ! a)" "below [d] (R ! t)" "below [d] (R ! a)"
    using Suc.prems(13,14) unfolding D by (auto simp: below_def)
  have first: "legal (hanoi k s a t) R \<and> replay (hanoi k s a t) R = ?R1"
    by (rule Suc.IH[of R s a t "S @ [d]" D'])
      (use Suc.prems ord bel in \<open>simp_all add: D lenD'\<close>)
  have R1s: "?R1 ! s = S @ [d]" and R1t: "?R1 ! t = R ! t"
    using Suc.prems by simp_all
  have mid: "moveDisk ?m ?R1 = ?R2"
    using moveDisk_nonempty[of ?R1 ?m S d] R1s Suc.prems by simp
  have second: "legal (hanoi k a t s) ?R2
      \<and> replay (hanoi k a t s) ?R2 = ?R2[a := R ! a, t := (?R2 ! t) @ D']"
    by (rule Suc.IH[of ?R2 a t s "R ! a" D'])
      (use Suc.prems ord bel in \<open>simp_all add: lenD' rodOrdered_append below_def\<close>)
  have fin: "?R2[a := R ! a, t := (?R2 ! t) @ D'] = R[s := S, t := (R ! t) @ D]"
    by (rule update3_eq[where s = s and t = t and a = a]) (use Suc.prems in \<open>simp_all add: D\<close>)
  have R1ord: "allRodsOrdered ?R1"
    using first legal_append[of "hanoi k s a t" "[]" R] by simp
  have R2ord: "allRodsOrdered ?R2"
    using second by (blast dest: legal_start)
  have "legal [?m] ?R1"
    using R1ord R1s mid R2ord by simp
  then show ?case
    using first second mid fin
    by (simp add: legal_append replay_append) (simp add: replay_def)
qed

section \<open>One step of the controller\<close>

lemma length_moveDisk [simp]: "length (moveDisk m R) = length R"
  by (simp add: moveDisk_def Let_def)

lemma executeMove_rods:
  assumes "currentMoveIndex s < length (moves s)"
    and "from_rod (moves s ! currentMoveIndex s) < length (rods s)"
    and "to_rod (moves s ! currentMoveIndex s) < length (rods s)"
  shows "executeMove s = Inr (s\<lparr>rods := moveDisk (moves s ! currentMoveIndex s) (rods s),
            currentMoveIndex := currentMoveIndex s + 1\<rparr>)"
  using assms by (simp add: executeMove_def moveDisk_def Let_def)

lemma stepBackward_rods:
  assumes "0 < currentMoveIndex s" "currentMoveIndex s \<le> length (moves s)"
    and "from_rod (moves s ! (currentMoveIndex s - 1)) < length (rods s)"
    and "to_rod (moves s ! (currentMoveIndex s - 1)) < length (rods s)"
  shows "stepBackward s = Inr (s\<lparr>rods := moveDisk (reverseMove (moves s ! (currentMoveIndex s - 1))) (rods s),
            currentMoveIndex := currentMoveIndex s - 1\<rparr>)"
  using assms by (simp add: stepBackward_def moveDisk_def reverseMove_def Let_def)

lemma mset_concat_update:
  "i < length R \<Longrightarrow> mset (concat (R[i := x])) + mset (R ! i) = mset (concat R) + mset x"
proof (induction R arbitrary: i)
  case Nil
  then show ?case by simp
next
  case (Cons r R)
  show ?case
  proof (cases i)
    case 0
    then show ?thesis by simp
  next
    case (Suc j)
    with Cons.prems have "j < length R" by simp
    from Cons.IH[OF this] show ?thesis using Suc by (simp add: ac_simps)
  qed
qed

lemma mset_butlast_last: "xs \<noteq> [] \<Longrightarrow> mset (butlast xs) + {#last xs#} = mset xs"
  by (induction xs) auto

lemma moveDisk_mset:
  assumes "from_rod m < length R" "to_rod m < length R"
  shows "mset (concat (moveDisk m R)) = mset (concat R)"
proof (cases "R ! from_rod m = []")
  case True
  then show ?thesis by (simp add: moveDisk_def)
next
  case False
  let ?src = "R ! from_rod m"
  let ?R1 = "R[from_rod m := butlast ?src]"
  have 1: "mset (concat ?R1) + mset ?src = mset (concat R) + mset (butlast ?src)"
    using assms(1) by (rule mset_concat_update)
  have 2: "mset (concat (?R1[to_rod m := (?R1 ! to_rod m) @ [last ?src]])) + mset (?R1 ! to_rod m)
      = mset (concat ?R1) + mset ((?R1 ! to_rod m) @ [last ?src])"
    using assms(2) by (intro mset_concat_update) simp
  have "mset (concat ?R1) + {#last ?src#} + mset (butlast ?src)
      = mset (concat R) + mset (butlast ?src)"
    using 1 mset_butlast_last[OF False, symmetric] by (simp add: ac_simps)
  then have "mset (concat ?R1) + {#last ?src#} = mset (concat R)"
    by simp
  with 2 show ?thesis using False by (simp add: moveDisk_def Let_def)
qed

lemma moveDisk_undo:
  assumes "from_rod m < length R" "to_rod m < length R" "from_rod m \<noteq> to_rod m"
    and "R ! from_rod m \<noteq> []"
  shows "moveDisk (reverseMove m) (moveDisk m R) = R"
proof -
  let ?f = "from_rod m" and ?t = "to_rod m"
  let ?R' = "R[?f := butlast (R ! ?f), ?t := (R ! ?t) @ [last (R ! ?f)]]"
  have fwd: "moveDisk m R = ?R'"
    using assms by (simp add: moveDisk_def Let_def)
  have "?R' ! ?t = (R ! ?t) @ [last (R ! ?f)]"
    using assms by simp
  then have bwd: "moveDisk (reverseMove m) ?R' = ?R'[?t := R ! ?t, ?f := R ! ?f]"
    using assms by (simp add: moveDisk_def reverseMove_def Let_def)
  have "?R'[?t := R ! ?t, ?f := R ! ?f] = R"
    by (rule nth_equalityI) (use assms in \<open>auto simp: nth_list_update\<close>)
  with fwd bwd show ?thesis by simp
qed

section \<open>The states a session passes through\<close>

lemma hanoi_proper:
  assumes "s < 3" "t < 3" "a < 3" "s \<noteq> t" "s \<noteq> a" "t \<noteq> a"
  shows "list_all properMove (hanoi k s t a)"
  using assms by (induction k arbitrary: s t a) (simp_all add: properMove_def)

lemma length_replay [simp]: "length (replay ms R) = length R"
  by (induction ms arbitrary: R) (simp_all add: replay_def)

lemma replay_take_Suc:
  "i < length ms \<Longrightarrow> replay (take (Suc i) ms) R = moveDisk (ms ! i) (replay (take i ms) R)"
  by (simp add: take_Suc_conv_app_nth replay_append) (simp add: replay_def)

lemma legal_at:
  assumes "legal ms R" "i \<le> length ms"
  shows "legal (drop i ms) (replay (take i ms) R)"
  using assms legal_append[of "take i ms" "drop i ms" R] by simp

lemma legal_ordered_at:
  "legal ms R \<Longrightarrow> i \<le> length ms \<Longrightarrow> allRodsOrdered (replay (take i ms) R)"
  by (blast dest: legal_at legal_start)

lemma legal_source_at:
  assumes "legal ms R" "i < length ms"
  shows "replay (take i ms) R ! from_rod (ms ! i) \<noteq> []"
proof -
  have "legal (ms ! i # drop (Suc i) ms) (replay (take i ms) R)"
    using legal_at[of ms R i] assms by (simp add: Cons_nth_drop_Suc)
  then show ?thesis by simp
qed

lemma stateAt_simps [simp]:
  "rods (stateAt b i) = replay (take i (moves b)) (rods b)"
  "currentMoveIndex (stateAt b i) = i"
  "moves (stateAt b i) = moves b"
  by (simp_all add: stateAt_def)

lemma stateAt_start: "currentMoveIndex b = 0 \<Longrightarrow> stateAt b 0 = b"
  by (simp add: stateAt_def replay_def)

lemma stateAt_forward:
  assumes "playable b" "i < length (moves b)"
  shows "stepForward (stateAt b i) = Inr (stateAt b (Suc i))"
proof -
  have "properMove (moves b ! i)"
    using assms by (simp add: playable_def list_all_length)
  then have "executeMove (stateAt b i)
      = Inr ((stateAt b i)\<lparr>rods := moveDisk (moves b ! i) (rods (stateAt b i)),
            currentMoveIndex := i + 1\<rparr>)"
    using assms executeMove_rods[of "stateAt b i"]
    by (simp add: playable_def properMove_def)
  then show ?thesis
    using assms(2) by (simp add: stepForward_def stateAt_def replay_take_Suc)
qed

lemma stateAt_forward_end:
  "stepForward (stateAt b (length (moves b))) = Inr (stateAt b (length (moves b)))"
  by (simp add: stepForward_def)

lemma stateAt_backward:
  assumes "playable b" "i < length (moves b)"
  shows "stepBackward (stateAt b (Suc i)) = Inr (stateAt b i)"
proof -
  let ?m = "moves b ! i" and ?R = "replay (take i (moves b)) (rods b)"
  have pm: "properMove ?m"
    using assms by (simp add: playable_def list_all_length)
  have src: "?R ! from_rod ?m \<noteq> []"
    using assms by (intro legal_source_at) (simp_all add: playable_def)
  have "stepBackward (stateAt b (Suc i))
      = Inr ((stateAt b (Suc i))\<lparr>rods := moveDisk (reverseMove ?m) (rods (stateAt b (Suc i))),
            currentMoveIndex := Suc i - 1\<rparr>)"
    using assms pm stepBackward_rods[of "stateAt b (Suc i)"]
    by (simp add: playable_def properMove_def)
  moreover have "moveDisk (reverseMove ?m) (rods (stateAt b (Suc i))) = ?R"
    using assms pm src moveDisk_undo[of ?m ?R]
    by (simp add: replay_take_Suc playable_def properMove_def)
  ultimately show ?thesis by (simp add: stateAt_def)
qed

lemma stateAt_backward_start: "stepBackward (stateAt b 0) = Inr (stateAt b 0)"
  by (simp add: stepBackward_def)

lemma perform_stateAt:
  assumes "playable b" "i \<le> length (moves b)"
  shows "\<exists>j\<le>length (moves b). perform act (stateAt b i) = Inr (stateAt b j)"
proof (cases act)
  case Forward
  show ?thesis
  proof (cases "i < length (moves b)")
    case True
    then show ?thesis using assms Forward stateAt_forward[of b i]
      by (auto intro!: exI[of _ "Suc i"])
  next
    case False
    with assms have "i = length (moves b)" by simp
    then show ?thesis using Forward stateAt_forward_end[of b]
      by (auto intro!: exI[of _ "length (moves b)"])
  qed
next
  case Backward
  show ?thesis
  proof (cases i)
    case 0
    then show ?thesis using Backward stateAt_backward_start[of b]
      by (auto intro!: exI[of _ 0])
  next
    case (Suc k)
    then show ?thesis using assms Backward stateAt_backward[of b k]
      by (auto intro!: exI[of _ k])
  qed
qed

lemma run_stateAt:
  assumes "playable b" "i \<le> length (moves b)"
  shows "\<exists>j\<le>length (moves b). run acts (stateAt b i) = Inr (stateAt b j)"
  using assms(2)
proof (induction acts arbitrary: i)
  case Nil
  then show ?case by auto
next
  case (Cons act acts)
  from perform_stateAt[OF assms(1) Cons.prems, of act]
  obtain j where "j \<le> length (moves b)" "perform act (stateAt b i) = Inr (stateAt b j)"
    by blast
  then show ?case using Cons.IH[of j] by simp
qed

lemma run_forward_stateAt:
  assumes "playable b"
  shows "i + k \<le> length (moves b) \<Longrightarrow> run (replicate k Forward) (stateAt b i) = Inr (stateAt b (i + k))"
proof (induction k arbitrary: i)
  case 0
  then show ?case by simp
next
  case (Suc k)
  then have "i < length (moves b)" by simp
  then show ?case using Suc.IH[of "Suc i"] Suc.prems stateAt_forward[OF assms, of i] by simp
qed

lemma rodOrdered_initialStack: "rodOrdered (initialStack n)"
  by (simp add: rodOrdered_def initialStack_def sorted_wrt_map sorted_wrt_upt[unfolded sorted_wrt_iff_nth_less] sorted_wrt_iff_nth_less)

lemma initialStack_length [simp]: "length (initialStack n) = nat n"
  by (simp add: initialStack_def)

lemma hanoi_initial:
  "legal (hanoi (nat n) 0 2 1) [initialStack n, [], []]
   \<and> replay (hanoi (nat n) 0 2 1) [initialStack n, [], []] = [[], [], initialStack n]"
  using hanoi_correct[of "[initialStack n, [], []]" 0 2 1 "[]" "initialStack n" "nat n"]
    rodOrdered_initialStack[of n]
  by (simp add: below_def) (simp add: rodOrdered_def)

lemma initializeGame_pos:
  assumes "1 \<le> n"
  shows "initializeGame n s0 =
     Some (s0\<lparr>disks := n, rods := [initialStack n, [], []], moves := hanoi (nat n) 0 2 1,
              totalMoves := 2 ^ nat n - 1, currentMoveIndex := 0\<rparr>)"
  using assms by (simp add: initializeGame_def calculateMoves_pos length_hanoi)

lemma initializeGame_Some:
  assumes "initializeGame n s0 = Some b"
  shows "1 \<le> n"
  using assms calculateMoves_Some_pos[of n 0 2 1]
  by (auto simp: initializeGame_def split: option.splits)

lemma initializeGame_playable:
  assumes "initializeGame n s0 = Some b"
  shows "playable b" "moves b = hanoi (nat n) 0 2 1" "rods b = [initialStack n, [], []]"
    "currentMoveIndex b = 0"
proof -
  have b: "b = s0\<lparr>disks := n, rods := [initialStack n, [], []], moves := hanoi (nat n) 0 2 1,
              totalMoves := 2 ^ nat n - 1, currentMoveIndex := 0\<rparr>"
    using assms initializeGame_pos[OF initializeGame_Some[OF assms], of s0] by simp
  show "moves b = hanoi (nat n) 0 2 1" "rods b = [initialStack n, [], []]" "currentMoveIndex b = 0"
    by (simp_all add: b)
  then show "playable b"
    using hanoi_initial[of n] hanoi_proper[of 0 2 1 "nat n"] by (simp add: playable_def)
qed

lemma reachable_stateAt:
  assumes "initializeGame n s0 = Some b" "run acts b = Inr s"
  shows "\<exists>j\<le>length (moves b). s = stateAt b j"
proof -
  note pb = initializeGame_playable[OF assms(1)]
  have "stateAt b 0 = b" using pb(4) by (rule stateAt_start)
  with run_stateAt[OF pb(1), of 0 acts] assms(2) show ?thesis by auto
qed

lemma run_total:
  assumes "initializeGame n s0 = Some b"
  shows "\<exists>s. run acts b = Inr s"
proof -
  note pb = initializeGame_playable[OF assms(1)]
  have "stateAt b 0 = b" using pb(4) by (rule stateAt_start)
  with run_stateAt[OF pb(1), of 0 acts] show ?thesis by auto
qed

lemma replay_mset:
  assumes "list_all properMove ms" "length R = 3"
  shows "mset (concat (replay ms R)) = mset (concat R)"
  using assms
proof (induction ms arbitrary: R)
  case Nil
  then show ?case by (simp add: replay_def)
next
  case (Cons m ms)
  then have "mset (concat (moveDisk m R)) = mset (concat R)"
    by (intro moveDisk_mset) (simp_all add: properMove_def)
  moreover have "replay (m # ms) R = replay ms (moveDisk m R)"
    by (simp add: replay_def)
  ultimately show ?case using Cons.IH[of "moveDisk m R"] Cons.prems by simp
qed

section \<open>Steps from an arbitrary state\<close>

lemma executeMove_allDisks:
  assumes "executeMove s = Inr s'"
  shows "allDisks s' = allDisks s"
proof (cases "currentMoveIndex s < length (moves s)")
  case False
  then show ?thesis using assms
    by (auto simp: executeMove_def allDisks_def Let_def clearInterval_def split: if_splits)
next
  case True
  let ?m = "moves s ! currentMoveIndex s"
  from assms True have "from_rod ?m < length (rods s)"
    by (auto simp: executeMove_def Let_def split: if_splits)
  show ?thesis
  proof (cases "rods s ! from_rod ?m = []")
    case True
    with assms \<open>currentMoveIndex s < length (moves s)\<close> show ?thesis
      by (auto simp: executeMove_def allDisks_def Let_def split: if_splits)
  next
    case False
    with assms True have "to_rod ?m < length (rods s)"
      by (auto simp: executeMove_def Let_def split: if_splits)
    with executeMove_rods[OF True \<open>from_rod ?m < length (rods s)\<close>] assms
    show ?thesis using moveDisk_mset[of ?m "rods s"] \<open>from_rod ?m < length (rods s)\<close>
      by (auto simp: allDisks_def)
  qed
qed

lemma stepForward_allDisks:
  "stepForward s = Inr s' \<Longrightarrow> allDisks s' = allDisks s"
  by (auto simp: stepForward_def executeMove_allDisks split: if_splits)

lemma stepBackward_allDisks:
  assumes "stepBackward s = Inr s'"
  shows "allDisks s' = allDisks s"
proof (cases "0 < currentMoveIndex s")
  case False
  then show ?thesis using assms by (simp add: stepBackward_def)
next
  case True
  let ?m = "moves s ! (currentMoveIndex s - 1)"
  from assms True have le: "currentMoveIndex s \<le> length (moves s)" and t: "to_rod ?m < length (rods s)"
    by (auto simp: stepBackward_def Let_def split: if_splits)
  show ?thesis
  proof (cases "rods s ! to_rod ?m = []")
    case True
    with assms \<open>0 < currentMoveIndex s\<close> show ?thesis
      by (auto simp: stepBackward_def allDisks_def Let_def split: if_splits)
  next
    case False
    with assms True have f: "from_rod ?m < length (rods s)"
      by (auto simp: stepBackward_def Let_def split: if_splits)
    from stepBackward_rods[OF True le f t] assms
    show ?thesis using moveDisk_mset[of "reverseMove ?m" "rods s"] f t
      by (auto simp: allDisks_def reverseMove_def)
  qed
qed

lemma wellFormed_executeMove:
  assumes "wellFormed s"
  shows "\<exists>s'. executeMove s = Inr s'"
proof (cases "currentMoveIndex s < length (moves s)")
  case False
  then show ?thesis by (simp add: executeMove_def Let_def)
next
  case True
  with assms have "validMove (moves s ! currentMoveIndex s)"
    by (simp add: wellFormed_def list_all_length)
  with assms True show ?thesis
    using executeMove_rods[of s] by (simp add: wellFormed_def validMove_def)
qed

lemma wellFormed_stepForward:
  "wellFormed s \<Longrightarrow> \<exists>s'. stepForward s = Inr s'"
  using wellFormed_executeMove[of s] by (simp add: stepForward_def)

lemma wellFormed_stepBackward:
  assumes "wellFormed s"
  shows "\<exists>s'. stepBackward s = Inr s'"
proof (cases "0 < currentMoveIndex s")
  case False
  then show ?thesis by (simp add: stepBackward_def)
next
  case True
  with assms have "currentMoveIndex s - 1 < length (moves s)"
    unfolding wellFormed_def by arith
  with assms have "validMove (moves s ! (currentMoveIndex s - 1))"
    unfolding wellFormed_def list_all_length by blast
  with assms True show ?thesis
    using stepBackward_rods[of s] by (simp add: wellFormed_def validMove_def)
qed

lemma executeMove_empty_source:
  assumes "currentMoveIndex s < length (moves s)"
    and "from_rod (moves s ! currentMoveIndex s) < length (rods s)"
    and "rods s ! from_rod (moves s ! currentMoveIndex s) = []"
  shows "executeMove s = Inr (s\<lparr>currentMoveIndex := currentMoveIndex s + 1\<rparr>)"
  using assms by (simp add: executeMove_def Let_def)

lemma reachable_allDisks:
  assumes "initializeGame n s0 = Some b" "run acts b = Inr r"
  shows "allDisks r = mset (initialStack n)"
proof -
  note pb = initializeGame_playable[OF assms(1)]
  from reachable_stateAt[OF assms] obtain j where j: "j \<le> length (moves b)" "r = stateAt b j"
    by blast
  have "list_all properMove (take j (moves b))"
    using pb(1) by (simp add: playable_def list_all_length)
  then have "mset (concat (replay (take j (moves b)) (rods b))) = mset (concat (rods b))"
    using pb(1) by (intro replay_mset) (simp_all add: playable_def)
  then show ?thesis using j(2) pb(3) by (simp add: allDisks_def)
qed

lemma stopAnimation_fields:
  "\<not> isPlaying (stopAnimation s)"
  "startTime (stopAnimation s) = startTime s"
  "disks (stopAnimation s) = disks s"
  "truthy (intervalId s) \<Longrightarrow> intervalId (stopAnimation s) = None"
  "truthy (intervalId s) \<Longrightarrow> the (intervalId s) \<notin> set (timers (stopAnimation s))"
  by (simp_all add: stopAnimation_def clearInterval_def Let_def)

section \<open>The initial stack\<close>

lemma initialStack_sizes: "map disk_size (initialStack n) = rev [1..n]"
proof (rule nth_equalityI)
  show "length (map disk_size (initialStack n)) = length (rev [1..n])"
    by (simp add: initialStack_def)
next
  fix i assume "i < length (map disk_size (initialStack n))"
  then have i: "i < nat n" by (simp add: initialStack_def)
  then have "rev [1..n] ! i = [1..n] ! (nat n - Suc i)"
    by (simp add: rev_nth)
  also have "\<dots> = 1 + int (nat n - Suc i)"
    using i by (intro nth_upto) auto
  also have "\<dots> = n - int i" using i by auto
  finally show "map disk_size (initialStack n) ! i = rev [1..n] ! i"
    using i by (simp add: initialStack_def)
qed

section \<open>Concrete runs\<close>

lemma initialStack_3:
  "initialStack 3 = [\<lparr>disk_id = 0, disk_size = 3\<rparr>, \<lparr>disk_id = 1, disk_size = 2\<rparr>,
                     \<lparr>disk_id = 2, disk_size = 1\<rparr>]"
  by (simp add: initialStack_def upt_rec)

lemma initialStack_5:
  "initialStack 5 = [\<lparr>disk_id = 0, disk_size = 5\<rparr>, \<lparr>disk_id = 1, disk_size = 4\<rparr>,
     \<lparr>disk_id = 2, disk_size = 3\<rparr>, \<lparr>disk_id = 3, disk_size = 2\<rparr>, \<lparr>disk_id = 4, disk_size = 1\<rparr>]"
  by (simp add: initialStack_def upt_rec)

lemmas game_defs = game3_def declaredState_def oneMoved_def stuck_def playing3_def

lemma initializeGame_3: "initializeGame 3 declaredState = Some game3"
  by (simp add: initializeGame_def calculateMoves.simps game_defs initialStack_3)

lemma length_moves_game3: "length (moves game3) = 7"
  by (simp add: game_defs)

lemma run_example: "run [Forward, Forward, Backward] game3 = Inr oneMoved"
  by (simp add: game_defs stepForward_def stepBackward_def executeMove_def Let_def)

lemma oneMoved_index: "currentMoveIndex oneMoved < length (moves oneMoved)"
  by (simp add: game_defs)

lemma executeMove_game3: "executeMove game3 = Inr oneMoved"
  by (simp add: game_defs executeMove_def Let_def)

lemma stepForward_game3: "stepForward game3 = Inr oneMoved"
  by (simp add: stepForward_def executeMove_game3) (simp add: game_defs)

lemma stepBackward_oneMoved: "stepBackward oneMoved = Inr game3"
  by (simp add: game_defs stepBackward_def Let_def)

lemma wellFormed_game3: "wellFormed game3"
  by (simp add: game_defs wellFormed_def validMove_def)

lemma stuck_source:
  "currentMoveIndex stuck < length (moves stuck)
   \<and> from_rod (moves stuck ! currentMoveIndex stuck) < length (rods stuck)
   \<and> rods stuck ! from_rod (moves stuck ! currentMoveIndex stuck) = []"
  by (simp add: game_defs)

lemma startAnimation_game3: "startAnimation 1000 1 game3 = playing3"
  by (simp add: game_defs startAnimation_def Let_def)

lemma updateDisks_playing3: "updateDisks 5 playing3 = Some updated5"
  using initializeGame_pos[of 5 playing3]
  by (simp add: updateDisks_def updated5_def) (simp add: game_defs)

lemma hanoi_5_first: "hanoi 5 0 2 1 ! 0 = \<lparr>from_rod = 0, to_rod = 2\<rparr>"
  by (simp add: eval_nat_numeral)

lemma updated5_fields:
  "currentMoveIndex updated5 = 0" "moves updated5 = hanoi 5 0 2 1"
  "rods updated5 = [initialStack 5, [], []]"
  "isPlaying updated5" "startTime updated5 = Some 1000" "intervalId updated5 = Some 1"
  "timers updated5 = [1]"
  by (simp_all add: updated5_def game_defs)

lemma executeMove_updated5:
  "executeMove updated5 =
     Inr (updated5\<lparr>rods := [[\<lparr>disk_id = 0, disk_size = 5\<rparr>, \<lparr>disk_id = 1, disk_size = 4\<rparr>,
                              \<lparr>disk_id = 2, disk_size = 3\<rparr>, \<lparr>disk_id = 3, disk_size = 2\<rparr>], [],
                             [\<lparr>disk_id = 4, disk_size = 1\<rparr>]],
                     currentMoveIndex := 1\<rparr>)"
proof -
  have "executeMove updated5 =
      Inr (updated5\<lparr>rods := moveDisk (moves updated5 ! currentMoveIndex updated5) (rods updated5),
                      currentMoveIndex := currentMoveIndex updated5 + 1\<rparr>)"
    by (rule executeMove_rods)
      (use updated5_fields(1-3) hanoi_5_first in \<open>simp_all add: length_hanoi\<close>)
  then show ?thesis
    using updated5_fields(1-3) hanoi_5_first by (simp add: initialStack_5 moveDisk_def)
qed

lemma intervalCallback_updated5:
  "intervalCallback updated5 =
     Inr (updated5\<lparr>rods := [[\<lparr>disk_id = 0, disk_size = 5\<rparr>, \<lparr>disk_id = 1, disk_size = 4\<rparr>,
                              \<lparr>disk_id = 2, disk_size = 3\<rparr>, \<lparr>disk_id = 3, disk_size = 2\<rparr>], [],
                             [\<lparr>disk_id = 4, disk_size = 1\<rparr>]],
                     currentMoveIndex := 1\<rparr>)"
  using updated5_fields(2) by (simp add: intervalCallback_def executeMove_updated5 length_hanoi)

section \<open>The claims\<close>

text \<open>
  C1. For every \<open>n\<close> from 1 to 12, \<open>initializeGame(n)\<close> returns a session whose moves are
  \<open>calculateMoves(n, 0, 2, 1)\<close> and whose rods are the \<open>n\<close> disks on rod 0, sizes
  \<open>n\<close> down to 1 from the bottom, beside two empty rods. Executing the moves in order
  from there, every move finds a disk on its source rod, and after the last move rods
  0 and 1 are empty and rod 2 holds the initial stack, in its order.
\<close>

theorem plan_solves:
  assumes "1 \<le> n" "n \<le> 12"
  shows "\<exists>b. initializeGame n s0 = Some b
     \<and> calculateMoves n 0 2 1 = Some (moves b)
     \<and> rods b = [initialStack n, [], []]
     \<and> map disk_size (initialStack n) = rev [1..n]
     \<and> (\<forall>i<length (moves b). \<exists>s. run (replicate i Forward) b = Inr s
            \<and> rods s ! from_rod (moves b ! i) \<noteq> [])
     \<and> (\<exists>s. run (replicate (length (moves b)) Forward) b = Inr s
            \<and> rods s = [[], [], initialStack n])"
proof -
  from assms(1) obtain b where b: "initializeGame n s0 = Some b"
    by (simp add: initializeGame_pos)
  note pb = initializeGame_playable[OF b]
  have start: "stateAt b 0 = b" using pb(4) by (rule stateAt_start)
  have fwd: "run (replicate i Forward) b = Inr (stateAt b i)" if "i \<le> length (moves b)" for i
    using run_forward_stateAt[OF pb(1), of 0 i] that start by simp
  have "calculateMoves n 0 2 1 = Some (moves b)"
    using assms(1) pb(2) by (simp add: calculateMoves_pos)
  moreover have "\<exists>s. run (replicate i Forward) b = Inr s \<and> rods s ! from_rod (moves b ! i) \<noteq> []"
    if "i < length (moves b)" for i
    using fwd[of i] that pb(1) legal_source_at[of "moves b" "rods b" i]
    by (simp add: playable_def)
  moreover have "\<exists>s. run (replicate (length (moves b)) Forward) b = Inr s
      \<and> rods s = [[], [], initialStack n]"
    using fwd[of "length (moves b)"] hanoi_initial[of n] pb(2,3) by simp
  ultimately show ?thesis using b pb(3) initialStack_sizes by blast
qed

theorem plan_solves_witness:
  "(1::int) \<le> 3 \<and> (3::int) \<le> 12
   \<and> initializeGame 3 declaredState = Some game3
   \<and> (\<exists>s. run (replicate 0 Forward) game3 = Inr s
          \<and> rods s ! from_rod (moves game3 ! 0) \<noteq> [])
   \<and> (\<exists>s. run (replicate 6 Forward) game3 = Inr s
          \<and> rods s ! from_rod (moves game3 ! 6) \<noteq> [])
   \<and> (\<exists>s. run (replicate 7 Forward) game3 = Inr s \<and> rods s = [[], [], initialStack 3])"
proof -
  have every: "\<forall>i<7. \<exists>s. run (replicate i Forward) game3 = Inr s
          \<and> rods s ! from_rod (moves game3 ! i) \<noteq> []"
    and last: "\<exists>s. run (replicate 7 Forward) game3 = Inr s \<and> rods s = [[], [], initialStack 3]"
    using plan_solves[of 3 declaredState]
    by (simp_all add: initializeGame_3 length_moves_game3)
  have "(0::nat) < 7" "(6::nat) < 7" by simp_all
  with every have "\<exists>s. run (replicate 0 Forward) game3 = Inr s
          \<and> rods s ! from_rod (moves game3 ! 0) \<noteq> []"
    and "\<exists>s. run (replicate 6 Forward) game3 = Inr s
          \<and> rods s ! from_rod (moves game3 ! 6) \<noteq> []"
    by blast+
  with last initializeGame_3 show ?thesis by simp
qed

text \<open>
  C2. For every \<open>n\<close> from 1 to 12 and any three rod numbers, \<open>calculateMoves\<close> returns,
  and the list it returns has exactly \<open>2^n - 1\<close> moves.
\<close>

theorem calculateMoves_length:
  assumes "1 \<le> n" "n \<le> 12"
  shows "\<exists>ms. calculateMoves n source target auxiliary = Some ms \<and> length ms = 2 ^ nat n - 1"
  using assms by (simp add: calculateMoves_pos length_hanoi)

theorem calculateMoves_length_witness:
  "(1::int) \<le> 3 \<and> (3::int) \<le> 12
   \<and> (\<exists>ms. calculateMoves 3 0 2 1 = Some ms \<and> length ms = 2 ^ nat 3 - 1)"
  using calculateMoves_length[of 3 0 2 1] by simp

text \<open>
  C3. \<open>calculateMoves(3, 0, 2, 1)\<close> returns the seven moves
  (0,2), (0,1), (2,1), (0,2), (1,0), (1,2), (0,2), each written (from, to).
\<close>

theorem calculateMoves_three:
  "calculateMoves 3 0 2 1 =
     Some [\<lparr>from_rod = 0, to_rod = 2\<rparr>, \<lparr>from_rod = 0, to_rod = 1\<rparr>,
           \<lparr>from_rod = 2, to_rod = 1\<rparr>, \<lparr>from_rod = 0, to_rod = 2\<rparr>,
           \<lparr>from_rod = 1, to_rod = 0\<rparr>, \<lparr>from_rod = 1, to_rod = 2\<rparr>,
           \<lparr>from_rod = 0, to_rod = 2\<rparr>]"
  by (simp add: calculateMoves.simps)

text \<open>
  C4. Let \<open>initializeGame(n)\<close> return the session \<open>b\<close>. Every sequence of stepForward
  and stepBackward presses from \<open>b\<close> returns a state, and that state has all its rods
  ordered: on every rod the sizes strictly increase from the top disk to the bottom disk.
\<close>

theorem rods_stay_ordered:
  assumes "initializeGame n s0 = Some b"
  shows "\<exists>s. run acts b = Inr s \<and> allRodsOrdered (rods s)"
proof -
  note pb = initializeGame_playable[OF assms]
  from run_total[OF assms, of acts] obtain s where s: "run acts b = Inr s"
    by blast
  from reachable_stateAt[OF assms s] obtain j where j: "j \<le> length (moves b)" "s = stateAt b j"
    by blast
  then have "allRodsOrdered (rods s)"
    using pb(1) legal_ordered_at[of "moves b" "rods b" j] by (simp add: playable_def)
  with s show ?thesis by blast
qed

theorem rods_stay_ordered_witness:
  "initializeGame 3 declaredState = Some game3
   \<and> run [Forward, Forward, Backward] game3 = Inr oneMoved
   \<and> allRodsOrdered (rods oneMoved)"
  using rods_stay_ordered[OF initializeGame_3, of "[Forward, Forward, Backward]"]
    initializeGame_3 run_example
  by simp

text \<open>
  C5. In every state \<open>s\<close> reached from \<open>initializeGame(n)\<close> by step presses and with
  \<open>currentMoveIndex < moves.length\<close>, stepForward returns a state on which stepBackward
  returns a state with the rods and the move index of \<open>s\<close>.
\<close>

theorem forward_then_backward:
  assumes "initializeGame n s0 = Some b" "run acts b = Inr s"
    and "currentMoveIndex s < length (moves s)"
  shows "\<exists>s1 s2. stepForward s = Inr s1 \<and> stepBackward s1 = Inr s2
     \<and> rods s2 = rods s \<and> currentMoveIndex s2 = currentMoveIndex s"
proof -
  note pb = initializeGame_playable[OF assms(1)]
  from reachable_stateAt[OF assms(1,2)] obtain j where j: "j \<le> length (moves b)" "s = stateAt b j"
    by blast
  with assms(3) have "j < length (moves b)" by simp
  then have "stepForward s = Inr (stateAt b (Suc j))" "stepBackward (stateAt b (Suc j)) = Inr s"
    using j(2) stateAt_forward[OF pb(1)] stateAt_backward[OF pb(1)] by simp_all
  then show ?thesis by blast
qed

theorem forward_then_backward_witness:
  "initializeGame 3 declaredState = Some game3
   \<and> run [Forward, Forward, Backward] game3 = Inr oneMoved
   \<and> currentMoveIndex oneMoved < length (moves oneMoved)
   \<and> (\<exists>s1 s2. stepForward oneMoved = Inr s1 \<and> stepBackward s1 = Inr s2
         \<and> rods s2 = rods oneMoved \<and> currentMoveIndex s2 = currentMoveIndex oneMoved)"
  using forward_then_backward[OF initializeGame_3 run_example oneMoved_index]
    initializeGame_3 run_example oneMoved_index by simp

text \<open>
  C6. \<open>updateDisks(5)\<close> pressed during playback of the three-disk session: the rods are
  the five-disk start and the move index is 0, but \<open>isPlaying\<close> is still true, the start
  time, the interval handle and the browser's timer are as before, and the callback of
  that timer, run on the new state, moves the smallest disk from rod 0 to rod 2.
\<close>

theorem updateDisks_while_playing:
  "startAnimation 1000 1 game3 = playing3
   \<and> updateDisks 5 playing3 = Some updated5
   \<and> isPlaying updated5 \<and> startTime updated5 = Some 1000
   \<and> intervalId updated5 = Some 1 \<and> timers updated5 = [1]
   \<and> rods updated5 = [initialStack 5, [], []] \<and> currentMoveIndex updated5 = 0
   \<and> intervalCallback updated5 =
        Inr (updated5\<lparr>rods := [[\<lparr>disk_id = 0, disk_size = 5\<rparr>, \<lparr>disk_id = 1, disk_size = 4\<rparr>,
                                 \<lparr>disk_id = 2, disk_size = 3\<rparr>, \<lparr>disk_id = 3, disk_size = 2\<rparr>], [],
                                [\<lparr>disk_id = 4, disk_size = 1\<rparr>]],
                        currentMoveIndex := 1\<rparr>)"
  by (intro conjI startAnimation_game3 updateDisks_playing3 updated5_fields
      intervalCallback_updated5)

text \<open>
  C7. With \<open>n = 0\<close> the planner does not return: \<open>0 === 1\<close> fails and the recursive
  calls go to \<open>-1\<close>, \<open>-2\<close> and so on, never meeting the only base case.
\<close>

theorem calculateMoves_zero_diverges: "calculateMoves 0 0 2 1 = None"
  by (rule calculateMoves_nonpos) simp

text \<open>
  C7, as the code has it. The planner returns on every \<open>n \<ge> 1\<close>; on \<open>n = 0\<close>, and on
  every \<open>n\<close> below 1, it does not return.
\<close>

theorem calculateMoves_total_from_one:
  "(1 \<le> n \<longrightarrow> (\<exists>ms. calculateMoves n source target auxiliary = Some ms))
   \<and> (n < 1 \<longrightarrow> calculateMoves n source target auxiliary = None)"
  by (simp add: calculateMoves_pos calculateMoves_nonpos)

theorem calculateMoves_total_from_one_witness:
  "(1::int) \<le> 1 \<and> (\<exists>ms. calculateMoves 1 0 2 1 = Some ms)
   \<and> (0::int) < 1 \<and> calculateMoves 0 0 2 1 = None"
  using calculateMoves_total_from_one[of 1 0 2 1] calculateMoves_total_from_one[of 0 0 2 1]
  by simp

text \<open>
  C8. \<open>initializeGame(3)\<close> on the playing three-disk session returns it as it was:
  \<open>isPlaying\<close> true, the start time set, the interval handle set and its timer live.
\<close>

theorem initializeGame_keeps_playing:
  "startAnimation 1000 1 game3 = playing3
   \<and> initializeGame 3 playing3 = Some playing3
   \<and> isPlaying playing3 \<and> startTime playing3 = Some 1000
   \<and> intervalId playing3 = Some 1 \<and> timers playing3 = [1]"
  using startAnimation_game3
  by (simp add: game_defs initializeGame_def calculateMoves.simps initialStack_3)

text \<open>
  C8, as the code has it. For \<open>n \<ge> 1\<close>, \<open>initializeGame(n)\<close> returns a state with
  \<open>currentMoveIndex = 0\<close>. It is \<open>resetGame\<close>, which runs \<open>stopAnimation()\<close> and
  \<open>startTime = null\<close> before \<open>initializeGame(disks)\<close>, that returns a state with
  \<open>currentMoveIndex = 0\<close>, \<open>isPlaying\<close> false, \<open>startTime\<close> null and, when an interval
  handle was set, that handle cleared and removed from the browser's timers.
\<close>

theorem initializeGame_and_resetGame:
  assumes "1 \<le> n" "1 \<le> disks s"
  shows "\<exists>s' r. initializeGame n s = Some s' \<and> currentMoveIndex s' = 0
     \<and> resetGame s = Some r \<and> currentMoveIndex r = 0 \<and> \<not> isPlaying r \<and> startTime r = None
     \<and> (truthy (intervalId s) \<longrightarrow> intervalId r = None \<and> the (intervalId s) \<notin> set (timers r))"
  using assms
  by (simp add: resetGame_def initializeGame_pos stopAnimation_fields)

theorem initializeGame_and_resetGame_witness:
  "(1::int) \<le> 3 \<and> 1 \<le> disks playing3 \<and> truthy (intervalId playing3)
   \<and> (\<exists>s' r. initializeGame 3 playing3 = Some s' \<and> currentMoveIndex s' = 0
     \<and> resetGame playing3 = Some r \<and> currentMoveIndex r = 0 \<and> \<not> isPlaying r \<and> startTime r = None
     \<and> intervalId r = None \<and> the (intervalId playing3) \<notin> set (timers r))"
proof -
  have h: "(1::int) \<le> 3" "1 \<le> disks playing3" "truthy (intervalId playing3)"
    by (simp_all add: game_defs)
  from initializeGame_and_resetGame[OF h(1,2)] h show ?thesis by simp
qed

text \<open>
  C9. stepForward on a session whose current move has an empty source rod returns
  normally, with the move index incremented; no error is raised.
\<close>

theorem stepForward_empty_source_silent:
  "rods stuck ! from_rod (moves stuck ! currentMoveIndex stuck) = []
   \<and> stepForward stuck = Inr (stuck\<lparr>currentMoveIndex := 1\<rparr>)"
  by (simp add: game_defs stepForward_def executeMove_def Let_def)

text \<open>
  C9, as the code has it. If stepForward is invoked where the source rod of the current
  move is empty, it raises no error: the rods are left as they are and
  \<open>currentMoveIndex\<close> is incremented.
\<close>

theorem stepForward_skips_empty_source:
  assumes "currentMoveIndex s < length (moves s)"
    and "from_rod (moves s ! currentMoveIndex s) < length (rods s)"
    and "rods s ! from_rod (moves s ! currentMoveIndex s) = []"
  shows "stepForward s = Inr (s\<lparr>currentMoveIndex := currentMoveIndex s + 1\<rparr>)"
  using assms by (simp add: stepForward_def executeMove_empty_source)

theorem stepForward_skips_empty_source_witness:
  "currentMoveIndex stuck < length (moves stuck)
   \<and> from_rod (moves stuck ! currentMoveIndex stuck) < length (rods stuck)
   \<and> rods stuck ! from_rod (moves stuck ! currentMoveIndex stuck) = []
   \<and> stepForward stuck = Inr (stuck\<lparr>currentMoveIndex := currentMoveIndex stuck + 1\<rparr>)"
  using stepForward_skips_empty_source[of stuck] stuck_source by simp

text \<open>
  C10. Whenever \<open>executeMove\<close>, stepForward or stepBackward returns, the multiset of
  disks on the rods is what it was; on a well-formed state each of them returns. Every
  state reached from \<open>initializeGame(n)\<close> by step presses holds the disks of the initial
  stack, \<open>n\<close> in number. \<open>executeMove\<close> on an empty source rod changes nothing but
  \<open>currentMoveIndex\<close>, which it increments.
\<close>

theorem disks_conserved:
  "(executeMove s = Inr s' \<longrightarrow> allDisks s' = allDisks s)
   \<and> (stepForward s = Inr s' \<longrightarrow> allDisks s' = allDisks s)
   \<and> (stepBackward s = Inr s' \<longrightarrow> allDisks s' = allDisks s)
   \<and> (wellFormed s \<longrightarrow> (\<exists>t. executeMove s = Inr t) \<and> (\<exists>t. stepForward s = Inr t)
          \<and> (\<exists>t. stepBackward s = Inr t))
   \<and> (initializeGame n s0 = Some b \<and> run acts b = Inr r \<longrightarrow>
          allDisks r = mset (initialStack n) \<and> size (allDisks r) = nat n)
   \<and> (currentMoveIndex s < length (moves s)
        \<and> from_rod (moves s ! currentMoveIndex s) < length (rods s)
        \<and> rods s ! from_rod (moves s ! currentMoveIndex s) = [] \<longrightarrow>
          executeMove s = Inr (s\<lparr>currentMoveIndex := currentMoveIndex s + 1\<rparr>))"
proof (intro conjI impI)
  show "allDisks s' = allDisks s" if "executeMove s = Inr s'"
    using that by (rule executeMove_allDisks)
  show "allDisks s' = allDisks s" if "stepForward s = Inr s'"
    using that by (rule stepForward_allDisks)
  show "allDisks s' = allDisks s" if "stepBackward s = Inr s'"
    using that by (rule stepBackward_allDisks)
  show "\<exists>t. executeMove s = Inr t" if "wellFormed s"
    using that by (rule wellFormed_executeMove)
  show "\<exists>t. stepForward s = Inr t" if "wellFormed s"
    using that by (rule wellFormed_stepForward)
  show "\<exists>t. stepBackward s = Inr t" if "wellFormed s"
    using that by (rule wellFormed_stepBackward)
  show "allDisks r = mset (initialStack n)" if "initializeGame n s0 = Some b \<and> run acts b = Inr r"
    using that reachable_allDisks by blast
  then show "size (allDisks r) = nat n" if "initializeGame n s0 = Some b \<and> run acts b = Inr r"
    using that by simp
  show "executeMove s = Inr (s\<lparr>currentMoveIndex := currentMoveIndex s + 1\<rparr>)"
    if "currentMoveIndex s < length (moves s)
        \<and> from_rod (moves s ! currentMoveIndex s) < length (rods s)
        \<and> rods s ! from_rod (moves s ! currentMoveIndex s) = []"
    using that executeMove_empty_source by blast
qed

theorem disks_conserved_witness:
  "executeMove game3 = Inr oneMoved \<and> stepForward game3 = Inr oneMoved
   \<and> stepBackward oneMoved = Inr game3 \<and> allDisks oneMoved = allDisks game3
   \<and> wellFormed game3
   \<and> (\<exists>t. executeMove game3 = Inr t) \<and> (\<exists>t. stepForward game3 = Inr t)
   \<and> (\<exists>t. stepBackward game3 = Inr t)
   \<and> initializeGame 3 declaredState = Some game3
   \<and> run [Forward, Forward, Backward] game3 = Inr oneMoved
   \<and> allDisks oneMoved = mset (initialStack 3) \<and> size (allDisks oneMoved) = nat 3
   \<and> currentMoveIndex stuck < length (moves stuck)
   \<and> from_rod (moves stuck ! currentMoveIndex stuck) < length (rods stuck)
   \<and> rods stuck ! from_rod (moves stuck ! currentMoveIndex stuck) = []
   \<and> executeMove stuck = Inr (stuck\<lparr>currentMoveIndex := currentMoveIndex stuck + 1\<rparr>)"
  using disks_conserved[of game3 oneMoved 3 declaredState game3 "[Forward, Forward, Backward]" oneMoved]
    disks_conserved[of oneMoved game3 3 declaredState game3 "[]" game3]
    disks_conserved[of stuck stuck 3 declaredState game3 "[]" game3]
    executeMove_game3 stepForward_game3 stepBackward_oneMoved wellFormed_game3
    initializeGame_3 run_example stuck_source
  by simp

end
